theory Spec2Isabelle
  imports Complex_Main "HOL-Library.Sublist"
begin

section \<open>The asynchronous event queue (hsm/runtime/async_support.py)\<close>

text \<open>
  \<^verbatim>\<open>AsyncEventQueue\<close> wraps an \<^verbatim>\<open>asyncio.Queue()\<close> built with no size bound and
  remembers the \<^verbatim>\<open>priority\<close> flag it was constructed with. The library queue is
  represented by the list of its pending items, oldest first: \<^verbatim>\<open>put\<close> appends at the
  back (it never waits, the queue being unbounded) and \<^verbatim>\<open>get\<close> removes the front.
\<close>

record 'e AsyncEventQueue =
  priority_mode :: bool
  queue_items :: "'e list"

definition AsyncEventQueue_init :: "bool \<Rightarrow> 'e AsyncEventQueue" where
  "AsyncEventQueue_init priority = \<lparr>priority_mode = priority, queue_items = []\<rparr>"

definition enqueue :: "'e \<Rightarrow> 'e AsyncEventQueue \<Rightarrow> 'e AsyncEventQueue" where
  "enqueue event q = q\<lparr>queue_items := queue_items q @ [event]\<rparr>"

text \<open>
  \<^verbatim>\<open>asyncio.wait_for(self._queue.get(), timeout=0.1)\<close>. With an item pending,
  \<^verbatim>\<open>get\<close> completes at once. With none, the call is suspended and what happens next
  depends on the other tasks: nothing, and the timeout elapses and
  \<^verbatim>\<open>asyncio.TimeoutError\<close> is raised; a \<^verbatim>\<open>put\<close> by another task after some delay,
  which the waiting \<^verbatim>\<open>get\<close> receives if it comes before the timeout; or a
  cancellation of the waiting task after some delay, which raises
  \<^verbatim>\<open>asyncio.CancelledError\<close> in it if it comes before the timeout. The third
  component of the result is the time waited.
\<close>

datatype 'e during_wait = Quiet | Put real 'e | Cancel real

datatype 'e get_outcome = Got 'e | TimeoutError | CancelledError

definition wait_for_get ::
  "'e during_wait \<Rightarrow> real \<Rightarrow> 'e list \<Rightarrow> 'e get_outcome \<times> 'e list \<times> real" where
  "wait_for_get others timeout items =
     (case items of
        event # rest \<Rightarrow> (Got event, rest, 0)
      | [] \<Rightarrow>
          (case others of
             Quiet \<Rightarrow> (TimeoutError, [], timeout)
           | Put delay event \<Rightarrow>
               if delay < timeout then (Got event, [], delay) else (TimeoutError, [], timeout)
           | Cancel delay \<Rightarrow>
               if delay < timeout then (CancelledError, [], delay)
               else (TimeoutError, [], timeout)))"

text \<open>
  \<^verbatim>\<open>dequeue\<close> catches \<^verbatim>\<open>asyncio.TimeoutError\<close> and nothing else: the result is
  \<open>Inr\<close> of what it returns, or \<open>Inl\<close> of the exception that leaves it.
\<close>

datatype async_error = Cancelled

definition dequeue ::
  "'e during_wait \<Rightarrow> 'e AsyncEventQueue \<Rightarrow> (async_error + 'e option) \<times> 'e AsyncEventQueue \<times> real" where
  "dequeue others q =
     (case wait_for_get others (1 / 10) (queue_items q) of
        (Got event, rest, waited) \<Rightarrow> (Inr (Some event), q\<lparr>queue_items := rest\<rparr>, waited)
      | (TimeoutError, rest, waited) \<Rightarrow> (Inr None, q\<lparr>queue_items := rest\<rparr>, waited)
      | (CancelledError, rest, waited) \<Rightarrow> (Inl Cancelled, q\<lparr>queue_items := rest\<rparr>, waited))"

text \<open>
  Whether the others leave a wait of the given length alone.
\<close>

fun undisturbed :: "'e during_wait \<Rightarrow> real \<Rightarrow> bool" where
  "undisturbed Quiet timeout = True"
| "undisturbed (Put delay event) timeout = (timeout \<le> delay)"
| "undisturbed (Cancel delay) timeout = (timeout \<le> delay)"

text \<open>
  A run of the queue: a sequence of \<^verbatim>\<open>enqueue\<close> and \<^verbatim>\<open>dequeue\<close> calls. Every
  \<^verbatim>\<open>put\<close> is an operation of the run, so nothing arrives while a \<^verbatim>\<open>dequeue\<close> of the
  run waits. The run collects what each \<^verbatim>\<open>dequeue\<close> returned, in call order; an
  exception leaving a \<^verbatim>\<open>dequeue\<close> would end it.
\<close>

datatype 'e queue_op = Enqueue 'e | Dequeue

fun run_ops :: "'e queue_op list \<Rightarrow> 'e AsyncEventQueue \<Rightarrow> 'e option list \<times> 'e AsyncEventQueue" where
  "run_ops [] q = ([], q)"
| "run_ops (Enqueue event # ops) q = run_ops ops (enqueue event q)"
| "run_ops (Dequeue # ops) q =
     (case dequeue Quiet q of
        (Inr r, q', waited) \<Rightarrow> (case run_ops ops q' of (rs, q'') \<Rightarrow> (r # rs, q''))
      | (Inl err, q', waited) \<Rightarrow> ([], q'))"

fun enqueued :: "'e queue_op list \<Rightarrow> 'e list" where
  "enqueued [] = []"
| "enqueued (Enqueue event # ops) = event # enqueued ops"
| "enqueued (Dequeue # ops) = enqueued ops"

fun successes :: "'e option list \<Rightarrow> 'e list" where
  "successes [] = []"
| "successes (None # rs) = successes rs"
| "successes (Some event # rs) = event # successes rs"

section \<open>Exceptions\<close>

text \<open>
  Python exception objects. \<^verbatim>\<open>except Exception\<close> catches the instances of
  \<^verbatim>\<open>Exception\<close> and lets every other \<^verbatim>\<open>BaseException\<close> pass
  (\<^verbatim>\<open>KeyboardInterrupt\<close>, \<^verbatim>\<open>SystemExit\<close>, \<^verbatim>\<open>GeneratorExit\<close>,
  \<^verbatim>\<open>asyncio.CancelledError\<close>), so the two kinds are kept apart. The string of the
  first two constructors is the text of the exception. \<^verbatim>\<open>GuardEvaluationError\<close> is
  built by \<^verbatim>\<open>GuardEvaluationError(message, guard_name, state_data, event)\<close>; its last
  field is \<^verbatim>\<open>__cause__\<close>, set by \<^verbatim>\<open>raise error from cause\<close>. Like the other
  error classes of the repository it derives from \<^verbatim>\<open>Exception\<close>.
\<close>

datatype ('e, 'd) exc =
    Exception string
  | BaseException string
  | GuardEvaluationError
      (gee_message: string) (gee_guard_name: string) (gee_state_data: 'd) (gee_event: 'e)
      (gee_cause: "('e, 'd) exc option")

fun is_Exception :: "('e, 'd) exc \<Rightarrow> bool" where
  "is_Exception (Exception text) = True"
| "is_Exception (BaseException text) = False"
| "is_Exception (GuardEvaluationError msg name state_data event cause) = True"


section \<open>Guards (hsm/core/guards.py)\<close>

text \<open>
  A \<^verbatim>\<open>ConditionGuard\<close> holds the user's condition; \<^verbatim>\<open>guard_name\<close> is the name of
  the object's class. The condition either returns a truth value or raises; an
  exception raised when \<^verbatim>\<open>not\<close> tests what it returned counts as raised by it.
\<close>

record ('e, 'd) ConditionGuard =
  class_name :: string
  condition :: "'d \<Rightarrow> ('e, 'd) exc + bool"

definition guard_name :: "('e, 'd) ConditionGuard \<Rightarrow> string" where
  "guard_name self = class_name self"

text \<open>
  Two operations of the language act on an exception object through methods its class
  may define, so both are parameters that return or raise: \<open>truth_of\<close> is the
  boolean test of \<^verbatim>\<open>if cause:\<close> (\<^verbatim>\<open>__bool__\<close> or \<^verbatim>\<open>__len__\<close> of the class; an
  object of a class that defines neither is true), and \<open>str_of\<close> is \<^verbatim>\<open>str\<close>, which
  the f-string of the message calls.

  \<^verbatim>\<open>_raise_guard_error\<close> always raises; the model returns the exception it raises.
  With the default argument \<^verbatim>\<open>None\<close>, or with a cause that tests false, the error
  is raised without \<^verbatim>\<open>from\<close> and its \<^verbatim>\<open>__cause__\<close> stays \<^verbatim>\<open>None\<close>. (The implicit
  \<^verbatim>\<open>__context__\<close> of an exception raised inside a handler is not represented.)
\<close>

definition raise_guard_error ::
  "(('e, 'd) exc \<Rightarrow> ('e, 'd) exc + bool) \<Rightarrow> ('e, 'd) ConditionGuard \<Rightarrow>
   string \<Rightarrow> 'd \<Rightarrow> 'e \<Rightarrow> ('e, 'd) exc option \<Rightarrow> ('e, 'd) exc" where
  "raise_guard_error truth_of self msg state_data event cause =
     (let error = GuardEvaluationError msg (guard_name self) state_data event None in
      case cause of
        None \<Rightarrow> error
      | Some c \<Rightarrow>
          (case truth_of c of
             Inl raised \<Rightarrow> raised
           | Inr truth \<Rightarrow>
               if truth
               then GuardEvaluationError msg (guard_name self) state_data event (Some c)
               else error))"

text \<open>
  \<^verbatim>\<open>ConditionGuard.check\<close>. The false condition raises inside the \<^verbatim>\<open>try\<close>, so
  that error too reaches the \<^verbatim>\<open>except Exception\<close> clause. In the handler the
  f-string is evaluated first; an exception raised by \<^verbatim>\<open>str(e)\<close> there leaves
  \<^verbatim>\<open>check\<close> as it is.
\<close>

definition check ::
  "(('e, 'd) exc \<Rightarrow> ('e, 'd) exc + bool) \<Rightarrow> (('e, 'd) exc \<Rightarrow> ('e, 'd) exc + string) \<Rightarrow>
   ('e, 'd) ConditionGuard \<Rightarrow> 'e \<Rightarrow> 'd \<Rightarrow> ('e, 'd) exc + bool" where
  "check truth_of str_of self event state_data =
     (let tried =
        (case condition self state_data of
           Inl e \<Rightarrow> Inl e
         | Inr holds \<Rightarrow>
             if \<not> holds
             then Inl (raise_guard_error truth_of self ''Condition failed'' state_data event None)
             else Inr ())
      in case tried of
           Inl e \<Rightarrow>
             if is_Exception e
             then (case str_of e of
                     Inl raised \<Rightarrow> Inl raised
                   | Inr text \<Rightarrow>
                       Inl (raise_guard_error truth_of self
                              (''Condition evaluation error: '' @ text) state_data event (Some e)))
             else Inl e
         | Inr u \<Rightarrow> Inr True)"

section \<open>The asynchronous state machine (hsm/runtime/async_support.py)\<close>

text \<open>
  The classes \<^verbatim>\<open>State\<close>, \<^verbatim>\<open>Transition\<close>, \<^verbatim>\<open>HookManager\<close> and
  \<^verbatim>\<open>_StateMachineContext\<close> are imported by the module and are not among the sources;
  \<^verbatim>\<open>process_event\<close> uses them only through the methods below, which are therefore
  parameters. A state is represented by its identity; the behaviour of its
  \<^verbatim>\<open>on_enter\<close> and \<^verbatim>\<open>on_exit\<close> methods is looked up by that identity.

  Guards, actions, state behaviours and hooks are user code: each is a function of the
  world \<open>'w\<close> outside the machine that returns normally or raises, and leaves a new
  world either way. They do not reach into the machine's private context.
\<close>

type_synonym State = string

type_synonym ('e, 'd, 'w, 'a) effect = "'w \<Rightarrow> (('e, 'd) exc + 'a) \<times> 'w"

record ('e, 'd, 'w) Transition =
  source :: State
  target :: State
  evaluate_guards :: "'e \<Rightarrow> ('e, 'd, 'w, bool) effect"
  execute_actions :: "'e \<Rightarrow> ('e, 'd, 'w, unit) effect"
  get_priority :: int

record ('e, 'd, 'w) HookManager =
  execute_on_enter :: "State \<Rightarrow> ('e, 'd, 'w, unit) effect"
  execute_on_exit :: "State \<Rightarrow> ('e, 'd, 'w, unit) effect"
  execute_on_error :: "('e, 'd) exc \<Rightarrow> ('e, 'd, 'w, unit) effect"

text \<open>
  The machine: the cursor and the transition table of its context (the table in
  registration order, as \<^verbatim>\<open>get_transitions\<close> returns it), the behaviours of the
  states, what the context's \<^verbatim>\<open>set_current_state\<close> does besides assigning the
  cursor, the hook manager and the two lifecycle flags.
\<close>

record ('e, 'd, 'w) AsyncStateMachine =
  current_state :: State
  transitions :: "('e, 'd, 'w) Transition list"
  state_on_enter :: "State \<Rightarrow> ('e, 'd, 'w, unit) effect"
  state_on_exit :: "State \<Rightarrow> ('e, 'd, 'w, unit) effect"
  context_set_current_state :: "State \<Rightarrow> ('e, 'd, 'w, unit) effect"
  hooks :: "('e, 'd, 'w) HookManager"
  started :: bool
  stopped :: bool

text \<open>
  Every call that leaves the body of \<^verbatim>\<open>process_event\<close>, and the assignment of the
  cursor, is recorded in a trace, in the order in which it happens. A transition is
  named in the trace by its source, target and priority.
\<close>

datatype ('e, 'd) call =
    EvaluateGuards State State int
  | HookOnExit State
  | StateOnExit State
  | ExecuteActions State State int
  | SetCurrentState State
  | StateOnEnter State
  | HookOnEnter State
  | HookOnError "('e, 'd) exc"

record ('e, 'd, 'w) config =
  machine :: "('e, 'd, 'w) AsyncStateMachine"
  world :: 'w
  trace :: "('e, 'd) call list"

type_synonym ('e, 'd, 'w, 'a) step =
  "('e, 'd, 'w) config \<Rightarrow> (('e, 'd) exc + 'a) \<times> ('e, 'd, 'w) config"

definition invoke :: "('e, 'd) call \<Rightarrow> ('e, 'd, 'w, 'a) effect \<Rightarrow> ('e, 'd, 'w, 'a) step" where
  "invoke c f s = (case f (world s) of (r, w') \<Rightarrow> (r, s\<lparr>world := w', trace := trace s @ [c]\<rparr>))"

text \<open>Sequencing of two statements: a raised exception skips what follows.\<close>

definition and_then ::
  "('e, 'd, 'w, 'a) step \<Rightarrow> ('a \<Rightarrow> ('e, 'd, 'w, 'b) step) \<Rightarrow> ('e, 'd, 'w, 'b) step" where
  "and_then f g s = (case f s of (Inl e, s') \<Rightarrow> (Inl e, s') | (Inr a, s') \<Rightarrow> g a s')"

text \<open>
  Modelled from the spec: \<^verbatim>\<open>_StateMachineContext.set_current_state\<close>, a method of
  hsm/core/state_machine.py, which is not among the sources. By section 4.1 it mutates
  "the current-state cursor to the target". Like every call in the \<^verbatim>\<open>try\<close> body it
  may raise; it then has not assigned the cursor.
\<close>

definition set_current_state :: "State \<Rightarrow> ('e, 'd, 'w, unit) step" where
  "set_current_state st s =
     (case invoke (SetCurrentState st) (context_set_current_state (machine s) st) s of
        (Inl e, s') \<Rightarrow> (Inl e, s')
      | (Inr u, s') \<Rightarrow> (Inr (), s'\<lparr>machine := (machine s')\<lparr>current_state := st\<rparr>\<rparr>))"

text \<open>
  The list comprehension
  \<^verbatim>\<open>[t for t in transitions if t.source == self.current_state and t.evaluate_guards(event)]\<close>:
  the table is walked in order, the guards of a transition are evaluated only when its
  source is the current state, and a raising guard ends the walk.
\<close>

fun valid_transitions ::
  "'e \<Rightarrow> ('e, 'd, 'w) Transition list \<Rightarrow> ('e, 'd, 'w, ('e, 'd, 'w) Transition list) step" where
  "valid_transitions event [] s = (Inr [], s)"
| "valid_transitions event (t # ts) s =
     (if source t = current_state (machine s)
      then (case invoke (EvaluateGuards (source t) (target t) (get_priority t))
                   (evaluate_guards t event) s of
              (Inl e, s') \<Rightarrow> (Inl e, s')
            | (Inr passed, s') \<Rightarrow>
                (case valid_transitions event ts s' of
                   (Inl e, s'') \<Rightarrow> (Inl e, s'')
                 | (Inr vs, s'') \<Rightarrow> (Inr (if passed then t # vs else vs), s'')))
      else valid_transitions event ts s)"

text \<open>
  \<^verbatim>\<open>sorted(xs, key=..., reverse=True)\<close>: Python's sort is stable, and with
  \<^verbatim>\<open>reverse=True\<close> it reverses the list, sorts it in ascending order and reverses the
  result, so that equal keys keep their original order. \<open>sort_key\<close> is a stable
  insertion sort.
\<close>

definition sorted_reverse :: "('a \<Rightarrow> int) \<Rightarrow> 'a list \<Rightarrow> 'a list" where
  "sorted_reverse key xs = rev (sort_key key (rev xs))"

text \<open>The subscript \<^verbatim>\<open>[0]\<close>, which raises \<^verbatim>\<open>IndexError\<close> on an empty list.\<close>

definition first_item :: "'a list \<Rightarrow> ('e, 'd) exc + 'a" where
  "first_item xs = (case xs of [] \<Rightarrow> Inl (Exception ''IndexError'') | x # rest \<Rightarrow> Inr x)"

definition chosen_transition ::
  "('e, 'd, 'w) Transition list \<Rightarrow> ('e, 'd) exc + ('e, 'd, 'w) Transition" where
  "chosen_transition vs = first_item (sorted_reverse get_priority vs)"

text \<open>
  The six statements that fire the chosen transition. \<^verbatim>\<open>self.current_state\<close> is read
  from the context at each statement; after the assignment it is the target.
\<close>

definition hook_on_exit :: "('e, 'd, 'w, unit) step" where
  "hook_on_exit s =
     invoke (HookOnExit (current_state (machine s)))
       (execute_on_exit (hooks (machine s)) (current_state (machine s))) s"

definition current_state_on_exit :: "('e, 'd, 'w, unit) step" where
  "current_state_on_exit s =
     invoke (StateOnExit (current_state (machine s)))
       (state_on_exit (machine s) (current_state (machine s))) s"

definition run_actions :: "('e, 'd, 'w) Transition \<Rightarrow> 'e \<Rightarrow> ('e, 'd, 'w, unit) step" where
  "run_actions t event =
     invoke (ExecuteActions (source t) (target t) (get_priority t)) (execute_actions t event)"

definition current_state_on_enter :: "('e, 'd, 'w, unit) step" where
  "current_state_on_enter s =
     invoke (StateOnEnter (current_state (machine s)))
       (state_on_enter (machine s) (current_state (machine s))) s"

definition hook_on_enter :: "('e, 'd, 'w, unit) step" where
  "hook_on_enter s =
     invoke (HookOnEnter (current_state (machine s)))
       (execute_on_enter (hooks (machine s)) (current_state (machine s))) s"

text \<open>The three statements before the assignment of the cursor.\<close>

definition exit_and_act :: "('e, 'd, 'w) Transition \<Rightarrow> 'e \<Rightarrow> ('e, 'd, 'w, unit) step" where
  "exit_and_act t event =
     and_then hook_on_exit (\<lambda>u.
     and_then current_state_on_exit (\<lambda>u.
     run_actions t event))"

definition fire :: "('e, 'd, 'w) Transition \<Rightarrow> 'e \<Rightarrow> ('e, 'd, 'w, unit) step" where
  "fire t event =
     and_then (exit_and_act t event) (\<lambda>u.
     and_then (set_current_state (target t)) (\<lambda>u.
     and_then current_state_on_enter (\<lambda>u.
     hook_on_enter)))"

text \<open>The body of the \<^verbatim>\<open>try\<close> statement.\<close>

definition try_block :: "'e \<Rightarrow> ('e, 'd, 'w, unit) step" where
  "try_block event =
     and_then (\<lambda>s. valid_transitions event (transitions (machine s)) s) (\<lambda>vs.
       if vs \<noteq> []
       then and_then (\<lambda>s. (chosen_transition vs, s)) (\<lambda>chosen. fire chosen event)
       else (\<lambda>s. (Inr (), s)))"

text \<open>
  The clause \<^verbatim>\<open>except Exception as e: self._hooks.execute_on_error(e)\<close>, applied to
  the outcome of the \<^verbatim>\<open>try\<close> body: an instance of \<^verbatim>\<open>Exception\<close> is handed to the
  error hooks, and what that call raises is not caught again; any other exception
  passes through.
\<close>

definition except_Exception ::
  "(('e, 'd) exc + unit) \<times> ('e, 'd, 'w) config \<Rightarrow> (('e, 'd) exc + unit) \<times> ('e, 'd, 'w) config" where
  "except_Exception outcome =
     (case outcome of
        (Inr u, s') \<Rightarrow> (Inr (), s')
      | (Inl e, s') \<Rightarrow>
          if is_Exception e
          then invoke (HookOnError e) (execute_on_error (hooks (machine s')) e) s'
          else (Inl e, s'))"

text \<open>
  \<^verbatim>\<open>process_event\<close>. The result is \<open>Inr ()\<close> when the coroutine returns and
  \<open>Inl e\<close> when \<open>e\<close> propagates to the caller. The lock taken around the
  \<^verbatim>\<open>try\<close> statement makes the calls on one machine run one after the other, which is
  what this sequential function describes; \<^verbatim>\<open>finally\<close> releases it on every path.
\<close>

definition process_event :: "'e \<Rightarrow> ('e, 'd, 'w, unit) step" where
  "process_event event s =
     (if \<not> started (machine s) \<or> stopped (machine s) then (Inr (), s)
      else except_Exception (try_block event s))"

section \<open>Example machines\<close>

text \<open>
  The outside world of the examples is the list of lines that the collaborators
  themselves have written, each its own line when it is called. A collaborator either
  returns or raises after writing. The machine is in state A with three passing
  transitions registered in the order A-B (priority 1), A-C (priority 5), A-D
  (priority 5). Events are strings.
\<close>

definition returns :: "string \<Rightarrow> 'a \<Rightarrow> (string, unit, string list, 'a) effect" where
  "returns line a w = (Inr a, w @ [line])"

definition raises :: "string \<Rightarrow> (string, unit) exc \<Rightarrow> (string, unit, string list, 'a) effect" where
  "raises line e w = (Inl e, w @ [line])"

definition recording_hooks :: "(string, unit, string list) HookManager" where
  "recording_hooks =
     \<lparr>execute_on_enter = (\<lambda>st. returns (''hooks.on_enter '' @ st) ()),
      execute_on_exit = (\<lambda>st. returns (''hooks.on_exit '' @ st) ()),
      execute_on_error = (\<lambda>e. returns ''hooks.on_error'' ())\<rparr>"

definition passing :: "State \<Rightarrow> State \<Rightarrow> int \<Rightarrow> (string, unit, string list) Transition" where
  "passing src tgt prio =
     \<lparr>source = src, target = tgt,
      evaluate_guards = (\<lambda>event. returns (''guards '' @ src @ tgt) True),
      execute_actions = (\<lambda>event. returns (''actions '' @ src @ tgt) ()),
      get_priority = prio\<rparr>"

definition machine_A ::
  "(string, unit, string list) Transition list \<Rightarrow> (string, unit, string list) AsyncStateMachine" where
  "machine_A table =
     \<lparr>current_state = ''A'', transitions = table,
      state_on_enter = (\<lambda>st. returns (st @ ''.on_enter'') ()),
      state_on_exit = (\<lambda>st. returns (st @ ''.on_exit'') ()),
      context_set_current_state = (\<lambda>st. returns (''context.set '' @ st) ()),
      hooks = recording_hooks, started = True, stopped = False\<rparr>"

definition initially ::
  "(string, unit, string list) AsyncStateMachine \<Rightarrow> (string, unit, string list) config" where
  "initially m = \<lparr>machine = m, world = [], trace = []\<rparr>"

definition three_from_A :: "(string, unit, string list) Transition list" where
  "three_from_A = [passing ''A'' ''B'' 1, passing ''A'' ''C'' 5, passing ''A'' ''D'' 5]"

text \<open>
  Variants: a machine whose states fail on exit, a machine whose only guard raises, a
  machine whose context refuses the new state, a machine whose only action ends the
  interpreter (\<^verbatim>\<open>sys.exit()\<close> raises \<^verbatim>\<open>SystemExit\<close>), and two condition guards, one
  interrupted from the keyboard and one whose condition fails with an ordinary
  exception.
\<close>

definition failing_exit_machine :: "(string, unit, string list) AsyncStateMachine" where
  "failing_exit_machine =
     (machine_A three_from_A)
       \<lparr>state_on_exit := (\<lambda>st. raises (st @ ''.on_exit'') (Exception ''exit failed''))\<rparr>"









section \<open>The timer (hsm/runtime/timers.py)\<close>

text \<open>
  The module of the timer is not among the sources; of the repository only its tests
  are (hsm/tests/unit/test_timers.py). The timer is therefore the state machine that
  section 4.3 of the spec describes. A callback either completes or raises.

  One test departs from that section: \<^verbatim>\<open>test_timer_validate_schedule_state\<close>
  overwrites the \<^verbatim>\<open>_state\<close> field of a timer whose deadline is still armed with
  \<^verbatim>\<open>ERROR\<close> and expects \<^verbatim>\<open>TimerSchedulingError\<close> from the next
  \<^verbatim>\<open>schedule_timeout\<close>. The timer of section 4.3 accepts a new deadline in
  \<^verbatim>\<open>ERROR\<close>, and that is what is stated here.
\<close>

datatype TimerState = IDLE | RUNNING | CANCELLED | COMPLETED | ERROR

datatype timer_error = ValueError | TimerSchedulingError

datatype callback_outcome = Completes | Raises

record 'e Timer =
  timer_id :: string
  timer_callback :: "string \<Rightarrow> 'e \<Rightarrow> callback_outcome"
  timer_state :: TimerState
  timer_duration :: "real option"
  timer_start_time :: "real option"
  timer_event :: "'e option"

text \<open>
  Modelled from the spec: \<^verbatim>\<open>Timer.schedule_timeout\<close>, of the missing module
  hsm/runtime/timers.py. Section 4.3: "valid from IDLE, CANCELLED, COMPLETED, ERROR
  -> RUNNING. Fails with a domain validation error if duration is negative. Fails with
  a scheduling-conflict error if the timer is currently RUNNING (only one deadline may
  be armed at a time). On success: records start_time, duration, arms the event".
  \<open>now\<close> is the clock reading stored as the start time.
\<close>

definition schedule_timeout ::
  "real \<Rightarrow> real \<Rightarrow> 'e \<Rightarrow> 'e Timer \<Rightarrow> timer_error + 'e Timer" where
  "schedule_timeout now duration event t =
     (if duration < 0 then Inl ValueError
      else if timer_state t = RUNNING then Inl TimerSchedulingError
      else Inr (t\<lparr>timer_state := RUNNING, timer_duration := Some duration,
                  timer_start_time := Some now, timer_event := Some event\<rparr>))"

text \<open>
  Modelled from the spec: the expiry of the deadline, of the same missing module.
  Section 4.3: "if still RUNNING with the same armed event, invoke the callback with
  (timer_id, event). If the callback completes without raising, transition to
  COMPLETED and clear duration/start_time/remaining. If the callback raises,
  transition to ERROR and clear duration/start_time/remaining".
\<close>

definition deadline_expiry :: "'e \<Rightarrow> 'e Timer \<Rightarrow> 'e Timer" where
  "deadline_expiry event t =
     (if timer_state t = RUNNING \<and> timer_event t = Some event
      then (case timer_callback t (timer_id t) event of
              Completes \<Rightarrow>
                t\<lparr>timer_state := COMPLETED, timer_duration := None, timer_start_time := None\<rparr>
            | Raises \<Rightarrow>
                t\<lparr>timer_state := ERROR, timer_duration := None, timer_start_time := None\<rparr>)
      else t)"

text \<open>
  Modelled from the spec: \<^verbatim>\<open>Timer.shutdown\<close> (same missing module), which
  "unconditionally cancels any pending deadline and forces the timer to IDLE, clearing
  all scheduling fields, regardless of prior state (including ERROR)".
\<close>

definition shutdown :: "'e Timer \<Rightarrow> 'e Timer" where
  "shutdown t =
     t\<lparr>timer_state := IDLE, timer_duration := None, timer_start_time := None,
       timer_event := None\<rparr>"

text \<open>
  The timer of \<^verbatim>\<open>test_timer_callback_error_handling\<close>:
  \<^verbatim>\<open>Timer("error_timer", error_callback)\<close>, whose callback raises, fresh and after its
  deadline of a tenth of a second, armed at time 0 with the event \<open>test_event\<close>, has
  expired.
\<close>

definition error_timer :: "string Timer" where
  "error_timer =
     \<lparr>timer_id = ''error_timer'', timer_callback = (\<lambda>tid event. Raises),
      timer_state = IDLE, timer_duration = None, timer_start_time = None,
      timer_event = None\<rparr>"

definition error_timer_after_expiry :: "string Timer" where
  "error_timer_after_expiry =
     (case schedule_timeout 0 (1 / 10) ''test_event'' error_timer of
        Inl err \<Rightarrow> error_timer
      | Inr running \<Rightarrow> deadline_expiry ''test_event'' running)"

section \<open>Facts about the queue\<close>

lemma dequeue_empty:
  "queue_items q = [] \<Longrightarrow> dequeue Quiet q = (Inr None, q, 1 / 10)"
  by (simp add: dequeue_def wait_for_get_def)

lemma dequeue_nonempty:
  "queue_items q = event # rest \<Longrightarrow>
   dequeue others q = (Inr (Some event), q\<lparr>queue_items := rest\<rparr>, 0)"
  by (simp add: dequeue_def wait_for_get_def)

lemma dequeue_cancelled:
  "queue_items q = [] \<Longrightarrow> delay < 1 / 10 \<Longrightarrow>
   dequeue (Cancel delay) q = (Inl Cancelled, q, delay)"
  by (simp add: dequeue_def wait_for_get_def)

lemma dequeue_receives_put:
  "queue_items q = [] \<Longrightarrow> delay < 1 / 10 \<Longrightarrow>
   dequeue (Put delay event) q = (Inr (Some event), q, delay)"
  by (simp add: dequeue_def wait_for_get_def)

lemma run_ops_conserves:
  "run_ops ops q = (rs, q') \<Longrightarrow> successes rs @ queue_items q' = queue_items q @ enqueued ops"
proof (induction ops arbitrary: q rs q')
  case Nil
  then show ?case by simp
next
  case (Cons op ops)
  show ?case
  proof (cases op)
    case (Enqueue event)
    with Cons.prems have "run_ops ops (enqueue event q) = (rs, q')" by simp
    from Cons.IH[OF this] Enqueue show ?thesis by (simp add: enqueue_def)
  next
    case Dequeue
    show ?thesis
    proof (cases "queue_items q")
      case Nil
      obtain rs' q'' where run: "run_ops ops q = (rs', q'')" by (cases "run_ops ops q")
      with Cons.prems Dequeue Nil have "rs = None # rs'" "q' = q''"
        by (simp_all add: dequeue_empty)
      with Cons.IH[OF run] Dequeue show ?thesis by simp
    next
      case (Cons event rest)
      obtain rs' q'' where run: "run_ops ops (q\<lparr>queue_items := rest\<rparr>) = (rs', q'')"
        by (cases "run_ops ops (q\<lparr>queue_items := rest\<rparr>)")
      with Cons.prems Dequeue Cons have "rs = Some event # rs'" "q' = q''"
        by (simp_all add: dequeue_nonempty)
      with Cons.IH[OF run] Dequeue Cons show ?thesis by simp
    qed
  qed
qed

lemma run_ops_priority_irrelevant:
  "queue_items q1 = queue_items q2 \<Longrightarrow>
   fst (run_ops ops q1) = fst (run_ops ops q2) \<and>
   queue_items (snd (run_ops ops q1)) = queue_items (snd (run_ops ops q2))"
proof (induction ops arbitrary: q1 q2)
  case Nil
  then show ?case by simp
next
  case (Cons op ops)
  show ?case
  proof (cases op)
    case (Enqueue event)
    have "queue_items (enqueue event q1) = queue_items (enqueue event q2)"
      using Cons.prems by (simp add: enqueue_def)
    from Cons.IH[OF this] Enqueue show ?thesis by simp
  next
    case Dequeue
    obtain r1 q1' w1 where d1: "dequeue Quiet q1 = (r1, q1', w1)" by (cases "dequeue Quiet q1")
    obtain r2 q2' w2 where d2: "dequeue Quiet q2 = (r2, q2', w2)" by (cases "dequeue Quiet q2")
    from d1 d2 Cons.prems have same: "r1 = r2" "queue_items q1' = queue_items q2'"
      by (auto simp: dequeue_def wait_for_get_def split: list.splits)
    from d1 obtain x where x: "r1 = Inr x"
      by (auto simp: dequeue_def wait_for_get_def split: list.splits)
    from d1 x have e1: "dequeue Quiet q1 = (Inr x, q1', w1)" by simp
    from d2 x same(1) have e2: "dequeue Quiet q2 = (Inr x, q2', w2)" by simp
    from Cons.IH[OF same(2)] e1 e2 Dequeue show ?thesis
      by (simp add: split_beta)
  qed
qed

lemma run_ops_priority_mode:
  "priority_mode (snd (run_ops ops q)) = priority_mode q"
proof (induction ops arbitrary: q)
  case Nil
  then show ?case by simp
next
  case (Cons op ops)
  show ?case
  proof (cases op)
    case (Enqueue event)
    with Cons.IH[of "enqueue event q"] show ?thesis by (simp add: enqueue_def)
  next
    case Dequeue
    obtain r q1 w where d: "dequeue Quiet q = (r, q1, w)" by (cases "dequeue Quiet q")
    then have "priority_mode q1 = priority_mode q"
      by (auto simp: dequeue_def wait_for_get_def split: list.splits)
    moreover from d obtain x where "r = Inr x"
      by (auto simp: dequeue_def wait_for_get_def split: list.splits)
    with d have "dequeue Quiet q = (Inr x, q1, w)" by simp
    ultimately show ?thesis using Cons.IH[of q1] Dequeue by (simp add: split_beta)
  qed
qed

section \<open>Facts about the state machine\<close>

lemma invoke_machine: "invoke c f s = (r, s') \<Longrightarrow> machine s' = machine s"
  by (auto simp: invoke_def split: prod.splits)

lemma invoke_trace: "invoke c f s = (r, s') \<Longrightarrow> trace s' = trace s @ [c]"
  by (auto simp: invoke_def split: prod.splits)

lemma valid_transitions_machine:
  "valid_transitions event ts s = (r, s') \<Longrightarrow> machine s' = machine s"
proof (induction ts arbitrary: s r s')
  case Nil
  then show ?case by simp
next
  case (Cons t ts)
  show ?case
  proof (cases "source t = current_state (machine s)")
    case False
    with Cons show ?thesis by simp
  next
    case True
    obtain g s1 where inv: "invoke (EvaluateGuards (source t) (target t) (get_priority t))
                     (evaluate_guards t event) s = (g, s1)"
      by (cases "invoke (EvaluateGuards (source t) (target t) (get_priority t))
                     (evaluate_guards t event) s")
    have m1: "machine s1 = machine s" by (rule invoke_machine[OF inv])
    show ?thesis
    proof (cases g)
      case (Inl e)
      with Cons.prems True inv m1 show ?thesis by simp
    next
      case (Inr passed)
      obtain r2 s2 where rest: "valid_transitions event ts s1 = (r2, s2)"
        by (cases "valid_transitions event ts s1")
      from Cons.IH[OF rest] m1 have "machine s2 = machine s" by simp
      with Cons.prems True inv Inr rest show ?thesis
        by (cases r2) auto
    qed
  qed
qed

lemma valid_transitions_subseq:
  "valid_transitions event ts s = (Inr vs, s') \<Longrightarrow>
   subseq vs ts \<and> (\<forall>t\<in>set vs. source t = current_state (machine s))"
proof (induction ts arbitrary: s vs s')
  case Nil
  then show ?case by simp
next
  case (Cons t ts)
  show ?case
  proof (cases "source t = current_state (machine s)")
    case False
    with Cons.prems have "valid_transitions event ts s = (Inr vs, s')" by simp
    from Cons.IH[OF this] show ?thesis by auto
  next
    case True
    obtain g s1 where inv: "invoke (EvaluateGuards (source t) (target t) (get_priority t))
                     (evaluate_guards t event) s = (g, s1)"
      by (cases "invoke (EvaluateGuards (source t) (target t) (get_priority t))
                     (evaluate_guards t event) s")
    have m1: "machine s1 = machine s" by (rule invoke_machine[OF inv])
    show ?thesis
    proof (cases g)
      case (Inl e)
      with Cons.prems True inv show ?thesis by simp
    next
      case (Inr passed)
      obtain r2 s2 where rest: "valid_transitions event ts s1 = (r2, s2)"
        by (cases "valid_transitions event ts s1")
      with Cons.prems True inv Inr obtain vs2 where
        r2: "r2 = Inr vs2" and vs: "vs = (if passed then t # vs2 else vs2)"
        by (cases r2) auto
      from Cons.IH[OF rest[unfolded r2]] m1
      have "subseq vs2 ts" "\<forall>t\<in>set vs2. source t = current_state (machine s)" by simp_all
      with vs True show ?thesis by auto
    qed
  qed
qed

lemma sorted_key_last_max:
  "sorted (map key L) \<Longrightarrow> u \<in> set L \<Longrightarrow> key u \<le> key (last L)"
  by (induction L) auto

lemma last_filter_holds:
  "xs \<noteq> [] \<Longrightarrow> P (last xs) \<Longrightarrow> last (filter P xs) = last xs"
  by (induction xs) (auto simp: filter_empty_conv)

lemma first_item_sorted_reverse:
  assumes "vs \<noteq> []"
  shows "\<exists>pre t post. vs = pre @ t # post \<and> (\<forall>u\<in>set pre. key u < key t) \<and>
           (\<forall>u\<in>set post. key u \<le> key t) \<and>
           (first_item (sorted_reverse key vs) :: ('e, 'd) exc + 'a) = Inr t"
proof -
  define L where "L = sort_key key (rev vs)"
  have L_ne: "L \<noteq> []" using assms by (metis L_def length_0_conv length_sort length_rev)
  have L_sorted: "sorted (map key L)" by (simp add: L_def)
  have L_set: "set L = set vs" by (simp add: L_def)
  define t where "t = last L"
  have t_max: "key u \<le> key t" if "u \<in> set vs" for u
    using sorted_key_last_max[OF L_sorted] that L_set t_def by blast
  have "last (filter (\<lambda>y. key y = key t) L) = t"
    using L_ne t_def by (simp add: last_filter_holds)
  moreover have "filter (\<lambda>y. key y = key t) L = rev (filter (\<lambda>y. key y = key t) vs)"
    by (simp add: L_def sort_key_stable rev_filter)
  moreover have ne: "filter (\<lambda>y. key y = key t) vs \<noteq> []"
    using L_ne L_set t_def by (metis (mono_tags, lifting) filter_empty_conv last_in_set)
  ultimately have "hd (filter (\<lambda>y. key y = key t) vs) = t"
    by (simp add: last_rev)
  with ne obtain rest where "filter (\<lambda>y. key y = key t) vs = t # rest"
    by (cases "filter (\<lambda>y. key y = key t) vs") auto
  then obtain pre post where dec: "vs = pre @ t # post" and pre: "\<forall>u\<in>set pre. key u \<noteq> key t"
    by (auto simp: filter_eq_Cons_iff)
  have "\<forall>u\<in>set pre. key u < key t"
    using pre t_max dec by (metis in_set_conv_decomp le_neq_trans Un_iff set_append)
  moreover have "\<forall>u\<in>set post. key u \<le> key t" using t_max dec by simp
  moreover have "(first_item (sorted_reverse key vs) :: ('e, 'd) exc + 'a) = Inr t"
  proof -
    have "sorted_reverse key vs = rev L" by (simp add: sorted_reverse_def L_def)
    moreover have "L = butlast L @ [t]" using L_ne t_def by simp
    then have "rev L = t # rev (butlast L)" by (metis rev.simps(2) rev_append rev_rev_ident append_Nil rev_singleton_conv append_Cons)
    ultimately show ?thesis by (simp add: first_item_def)
  qed
  ultimately show ?thesis using dec by blast
qed

lemma chosen_transition_member:
  "chosen_transition vs = Inr t \<Longrightarrow> t \<in> set vs"
proof -
  assume "chosen_transition vs = Inr t"
  then have "t \<in> set (sorted_reverse get_priority vs)"
    by (auto simp: chosen_transition_def first_item_def split: list.splits)
  then show ?thesis by (simp add: sorted_reverse_def)
qed

lemma try_block_fires:
  assumes "valid_transitions event (transitions (machine s)) s = (Inr vs, s1)"
    and "chosen_transition vs = Inr t"
  shows "try_block event s = fire t event s1"
proof -
  from assms(2) have "vs \<noteq> []"
    by (auto simp: chosen_transition_def first_item_def sorted_reverse_def)
  with assms show ?thesis by (simp add: try_block_def and_then_def)
qed

lemma try_block_no_match:
  assumes "valid_transitions event (transitions (machine s)) s = (Inr [], s1)"
  shows "try_block event s = (Inr (), s1)"
  using assms by (simp add: try_block_def and_then_def)

lemma exit_and_act_machine:
  assumes "exit_and_act t event s = (r, s')"
  shows "machine s' = machine s"
proof -
  obtain r1 s1 where h: "hook_on_exit s = (r1, s1)" by (cases "hook_on_exit s")
  then have m1: "machine s1 = machine s" by (auto simp: hook_on_exit_def dest: invoke_machine)
  obtain r2 s2 where x: "current_state_on_exit s1 = (r2, s2)" by (cases "current_state_on_exit s1")
  then have m2: "machine s2 = machine s1" by (auto simp: current_state_on_exit_def dest: invoke_machine)
  obtain r3 s3 where a: "run_actions t event s2 = (r3, s3)" by (cases "run_actions t event s2")
  then have m3: "machine s3 = machine s2" by (auto simp: run_actions_def dest: invoke_machine)
  from assms h x a m1 m2 m3 show ?thesis
    by (auto simp: exit_and_act_def and_then_def split: sum.splits)
qed

lemma except_Exception_machine:
  "except_Exception (r, s1) = (r', s') \<Longrightarrow> machine s' = machine s1"
  by (auto simp: except_Exception_def split: sum.splits if_splits dest: invoke_machine)

lemma and_then_Inr:
  "and_then f g s = (Inr b, s') \<Longrightarrow> \<exists>a s1. f s = (Inr a, s1) \<and> g a s1 = (Inr b, s')"
  by (auto simp: and_then_def split: prod.splits sum.splits)

lemma invoke_effect: "invoke c f s = (r, s') \<Longrightarrow> f (world s) = (r, world s')"
  by (auto simp: invoke_def split: prod.splits)

lemma hook_on_exit_step:
  "hook_on_exit s = (r, s') \<Longrightarrow>
   machine s' = machine s \<and> trace s' = trace s @ [HookOnExit (current_state (machine s))] \<and>
   execute_on_exit (hooks (machine s)) (current_state (machine s)) (world s) = (r, world s')"
  by (auto simp: hook_on_exit_def dest: invoke_machine invoke_trace invoke_effect)

lemma current_state_on_exit_step:
  "current_state_on_exit s = (r, s') \<Longrightarrow>
   machine s' = machine s \<and> trace s' = trace s @ [StateOnExit (current_state (machine s))] \<and>
   state_on_exit (machine s) (current_state (machine s)) (world s) = (r, world s')"
  by (auto simp: current_state_on_exit_def dest: invoke_machine invoke_trace invoke_effect)

lemma run_actions_step:
  "run_actions t event s = (r, s') \<Longrightarrow>
   machine s' = machine s \<and>
   trace s' = trace s @ [ExecuteActions (source t) (target t) (get_priority t)] \<and>
   execute_actions t event (world s) = (r, world s')"
  by (auto simp: run_actions_def dest: invoke_machine invoke_trace invoke_effect)

lemma set_current_state_step:
  assumes "set_current_state st s = (Inr u, s')"
  shows "machine s' = (machine s)\<lparr>current_state := st\<rparr> \<and>
         trace s' = trace s @ [SetCurrentState st] \<and>
         context_set_current_state (machine s) st (world s) = (Inr (), world s')"
proof -
  obtain r s1 where inv:
    "invoke (SetCurrentState st) (context_set_current_state (machine s) st) s = (r, s1)"
    by (cases "invoke (SetCurrentState st) (context_set_current_state (machine s) st) s")
  with assms obtain v where r: "r = Inr v"
    and s': "s' = s1\<lparr>machine := (machine s1)\<lparr>current_state := st\<rparr>\<rparr>"
    by (cases r) (auto simp: set_current_state_def)
  from invoke_machine[OF inv] invoke_trace[OF inv] invoke_effect[OF inv] r s'
  show ?thesis by simp
qed

lemma current_state_on_enter_step:
  "current_state_on_enter s = (r, s') \<Longrightarrow>
   machine s' = machine s \<and> trace s' = trace s @ [StateOnEnter (current_state (machine s))] \<and>
   state_on_enter (machine s) (current_state (machine s)) (world s) = (r, world s')"
  by (auto simp: current_state_on_enter_def dest: invoke_machine invoke_trace invoke_effect)

lemma hook_on_enter_step:
  "hook_on_enter s = (r, s') \<Longrightarrow>
   machine s' = machine s \<and> trace s' = trace s @ [HookOnEnter (current_state (machine s))] \<and>
   execute_on_enter (hooks (machine s)) (current_state (machine s)) (world s) = (r, world s')"
  by (auto simp: hook_on_enter_def dest: invoke_machine invoke_trace invoke_effect)

lemma fire_completes:
  assumes "fire t event s1 = (Inr u, s2)"
  shows "trace s2 = trace s1 @
           [HookOnExit (current_state (machine s1)), StateOnExit (current_state (machine s1)),
            ExecuteActions (source t) (target t) (get_priority t),
            SetCurrentState (target t), StateOnEnter (target t), HookOnEnter (target t)] \<and>
         machine s2 = (machine s1)\<lparr>current_state := target t\<rparr> \<and>
         (\<exists>w1 w2 w3 w4 w5.
            execute_on_exit (hooks (machine s1)) (current_state (machine s1)) (world s1)
            = (Inr (), w1) \<and>
            state_on_exit (machine s1) (current_state (machine s1)) w1 = (Inr (), w2) \<and>
            execute_actions t event w2 = (Inr (), w3) \<and>
            context_set_current_state (machine s1) (target t) w3 = (Inr (), w4) \<and>
            state_on_enter (machine s1) (target t) w4 = (Inr (), w5) \<and>
            execute_on_enter (hooks (machine s1)) (target t) w5 = (Inr (), world s2))"
proof -
  from assms obtain u1 a3 where ea: "exit_and_act t event s1 = (Inr u1, a3)"
    and rest1: "and_then (set_current_state (target t))
                  (\<lambda>u. and_then current_state_on_enter (\<lambda>u. hook_on_enter)) a3 = (Inr u, s2)"
    unfolding fire_def by (blast dest: and_then_Inr)
  from ea obtain u2 a1 where s_hx: "hook_on_exit s1 = (Inr u2, a1)"
    and rest2: "and_then current_state_on_exit (\<lambda>u. run_actions t event) a1 = (Inr u1, a3)"
    unfolding exit_and_act_def by (blast dest: and_then_Inr)
  from rest2 obtain u3 a2 where s_sx: "current_state_on_exit a1 = (Inr u3, a2)"
    and s_act: "run_actions t event a2 = (Inr u1, a3)"
    by (blast dest: and_then_Inr)
  from rest1 obtain u4 a4 where s_set: "set_current_state (target t) a3 = (Inr u4, a4)"
    and rest3: "and_then current_state_on_enter (\<lambda>u. hook_on_enter) a4 = (Inr u, s2)"
    by (blast dest: and_then_Inr)
  from rest3 obtain u5 a5 where s_se: "current_state_on_enter a4 = (Inr u5, a5)"
    and s_he: "hook_on_enter a5 = (Inr u, s2)"
    by (blast dest: and_then_Inr)
  note f1 = hook_on_exit_step[OF s_hx] and f2 = current_state_on_exit_step[OF s_sx]
    and f3 = run_actions_step[OF s_act] and f4 = set_current_state_step[OF s_set]
    and f5 = current_state_on_enter_step[OF s_se] and f6 = hook_on_enter_step[OF s_he]
  have tr: "trace s2 = trace s1 @
           [HookOnExit (current_state (machine s1)), StateOnExit (current_state (machine s1)),
            ExecuteActions (source t) (target t) (get_priority t),
            SetCurrentState (target t), StateOnEnter (target t), HookOnEnter (target t)]"
    using f1 f2 f3 f4 f5 f6 by simp
  have ma: "machine s2 = (machine s1)\<lparr>current_state := target t\<rparr>"
    using f1 f2 f3 f4 f5 f6 by simp
  have e1: "execute_on_exit (hooks (machine s1)) (current_state (machine s1)) (world s1)
            = (Inr (), world a1)" using f1 by simp
  have e2: "state_on_exit (machine s1) (current_state (machine s1)) (world a1)
            = (Inr (), world a2)" using f1 f2 by simp
  have e3: "execute_actions t event (world a2) = (Inr (), world a3)" using f3 by simp
  have e4: "context_set_current_state (machine s1) (target t) (world a3) = (Inr (), world a4)"
    using f1 f2 f3 f4 by simp
  have e5: "state_on_enter (machine s1) (target t) (world a4) = (Inr (), world a5)"
    using f1 f2 f3 f4 f5 by simp
  have e6: "execute_on_enter (hooks (machine s1)) (target t) (world a5) = (Inr (), world s2)"
    using f1 f2 f3 f4 f5 f6 by simp
  from tr ma e1 e2 e3 e4 e5 e6 show ?thesis by blast
qed

lemmas example_defs =
  initially_def machine_A_def three_from_A_def passing_def returns_def raises_def
  recording_hooks_def invoke_def

lemmas machine_defs =
  process_event_def except_Exception_def try_block_def and_then_def
  chosen_transition_def sorted_reverse_def first_item_def fire_def exit_and_act_def
  hook_on_exit_def current_state_on_exit_def run_actions_def set_current_state_def
  current_state_on_enter_def hook_on_enter_def

section \<open>Facts about the condition guard\<close>

lemma check_condition_holds:
  "condition self state_data = Inr True \<Longrightarrow> check truth_of str_of self event state_data = Inr True"
  by (simp add: check_def)

lemma check_str_raises:
  "condition self state_data = Inl e \<Longrightarrow> is_Exception e \<Longrightarrow> str_of e = Inl raised \<Longrightarrow>
   check truth_of str_of self event state_data = Inl raised"
  by (simp add: check_def)

lemma check_false_cause_not_chained:
  "condition self state_data = Inl e \<Longrightarrow> is_Exception e \<Longrightarrow> str_of e = Inr text \<Longrightarrow>
   truth_of e = Inr False \<Longrightarrow>
   check truth_of str_of self event state_data =
     Inl (GuardEvaluationError (''Condition evaluation error: '' @ text)
            (guard_name self) state_data event None)"
  by (simp add: check_def raise_guard_error_def)

section \<open>Claims about the queue\<close>

text \<open>
  C7. Whatever sequence of \<^verbatim>\<open>enqueue\<close> and \<^verbatim>\<open>dequeue\<close> calls is run on a fresh
  queue, the events returned by the successful \<^verbatim>\<open>dequeue\<close> calls, followed by the
  events still pending, are exactly the events submitted, in submission order; hence
  the i-th successful \<^verbatim>\<open>dequeue\<close> returns the i-th event enqueued.
\<close>

theorem dequeue_fifo_order:
  "run_ops ops (AsyncEventQueue_init priority) = (rs, q') \<Longrightarrow>
   successes rs @ queue_items q' = enqueued ops \<and>
   (\<forall>i < length (successes rs). successes rs ! i = enqueued ops ! i)"
proof -
  assume run: "run_ops ops (AsyncEventQueue_init priority) = (rs, q')"
  have all: "successes rs @ queue_items q' = enqueued ops"
    using run_ops_conserves[OF run] by (simp add: AsyncEventQueue_init_def)
  have "successes rs ! i = enqueued ops ! i" if "i < length (successes rs)" for i
  proof -
    have "(successes rs @ queue_items q') ! i = successes rs ! i"
      using that by (simp add: nth_append)
    with all show ?thesis by simp
  qed
  with all show ?thesis by blast
qed

theorem dequeue_fifo_order_witness:
  "run_ops [Enqueue (1::nat), Dequeue, Dequeue, Enqueue 2, Enqueue 3, Dequeue]
     (AsyncEventQueue_init False)
   = ([Some 1, None, Some 2], \<lparr>priority_mode = False, queue_items = [3]\<rparr>) \<and>
   successes [Some (1::nat), None, Some 2] @ [3]
   = enqueued [Enqueue (1::nat), Dequeue, Dequeue, Enqueue 2, Enqueue 3, Dequeue] \<and>
   successes [Some (1::nat), None, Some 2] ! 1
   = enqueued [Enqueue (1::nat), Dequeue, Dequeue, Enqueue 2, Enqueue 3, Dequeue] ! 1"
proof -
  have run:
    "run_ops [Enqueue (1::nat), Dequeue, Dequeue, Enqueue 2, Enqueue 3, Dequeue]
       (AsyncEventQueue_init False)
     = ([Some 1, None, Some 2], \<lparr>priority_mode = False, queue_items = [3]\<rparr>)"
    by (simp add: AsyncEventQueue_init_def enqueue_def dequeue_def wait_for_get_def)
  from dequeue_fifo_order[OF run] run show ?thesis by simp
qed

text \<open>
  C8, as stated, fails: on an empty queue, when another task puts an event half-way
  through the wait, \<^verbatim>\<open>dequeue\<close> returns that event, not \<^verbatim>\<open>None\<close>.
\<close>

theorem dequeue_empty_receives_counterexample:
  "queue_items (AsyncEventQueue_init False :: string AsyncEventQueue) = [] \<and>
   dequeue (Put (1 / 20) ''E'') (AsyncEventQueue_init False)
   = (Inr (Some ''E''), AsyncEventQueue_init False, 1 / 20)"
  by (simp add: dequeue_def wait_for_get_def AsyncEventQueue_init_def)

text \<open>
  C8, amended. On a queue with no pending event, \<^verbatim>\<open>dequeue\<close> waits no longer than
  the timeout of a tenth of a second, whatever the other tasks do. When they leave the
  wait alone (no \<^verbatim>\<open>put\<close> and no cancellation before the timeout), it returns
  \<^verbatim>\<open>None\<close>: the \<^verbatim>\<open>TimeoutError\<close> of the wait is caught, nothing is raised, and the
  queue is left as it was.
\<close>

theorem dequeue_empty_returns_none:
  assumes "queue_items q = []"
  shows "snd (snd (dequeue others q)) \<le> 1 / 10 \<and>
         (undisturbed others (1 / 10) \<longrightarrow>
            dequeue others q = (Inr None, q, 1 / 10) \<and>
            wait_for_get others (1 / 10) (queue_items q) = (TimeoutError, [], 1 / 10))"
  using assms by (cases others) (simp_all add: dequeue_def wait_for_get_def)

theorem dequeue_empty_returns_none_witness:
  "queue_items (AsyncEventQueue_init True :: nat AsyncEventQueue) = [] \<and>
   undisturbed (Put (1 / 5) (7::nat)) (1 / 10) \<and>
   dequeue (Put (1 / 5) (7::nat)) (AsyncEventQueue_init True)
   = (Inr None, AsyncEventQueue_init True, 1 / 10) \<and>
   undisturbed (Quiet :: nat during_wait) (1 / 10) \<and>
   dequeue Quiet (AsyncEventQueue_init True :: nat AsyncEventQueue)
   = (Inr None, AsyncEventQueue_init True, 1 / 10)"
proof -
  have empty: "queue_items (AsyncEventQueue_init True :: nat AsyncEventQueue) = []"
    by (simp add: AsyncEventQueue_init_def)
  have late: "undisturbed (Put (1 / 5) (7::nat)) (1 / 10)" by simp
  have quiet: "undisturbed (Quiet :: nat during_wait) (1 / 10)" by simp
  from dequeue_empty_returns_none[OF empty, of "Put (1 / 5) 7"]
       dequeue_empty_returns_none[OF empty, of Quiet] empty late quiet
  show ?thesis by simp
qed

text \<open>
  C10. A queue constructed with \<^verbatim>\<open>priority=True\<close> and one constructed with
  \<^verbatim>\<open>priority=False\<close> answer every sequence of \<^verbatim>\<open>enqueue\<close> and \<^verbatim>\<open>dequeue\<close>
  calls with the same results in the same order and end with the same pending events;
  the flag is only recorded.
\<close>

theorem priority_flag_has_no_effect:
  "fst (run_ops ops (AsyncEventQueue_init True)) = fst (run_ops ops (AsyncEventQueue_init False)) \<and>
   queue_items (snd (run_ops ops (AsyncEventQueue_init True)))
   = queue_items (snd (run_ops ops (AsyncEventQueue_init False))) \<and>
   priority_mode (snd (run_ops ops (AsyncEventQueue_init True))) = True \<and>
   priority_mode (snd (run_ops ops (AsyncEventQueue_init False))) = False"
proof -
  have "queue_items (AsyncEventQueue_init True :: 'a AsyncEventQueue)
        = queue_items (AsyncEventQueue_init False :: 'a AsyncEventQueue)"
    by (simp add: AsyncEventQueue_init_def)
  from run_ops_priority_irrelevant[OF this, of ops]
  show ?thesis by (simp add: run_ops_priority_mode AsyncEventQueue_init_def)
qed

section \<open>Claims about the state machine\<close>

text \<open>
  C1. When the machine is started and the walk over the table finds the transitions
  \<open>vs\<close> that leave the current state and whose guards pass (one or more),
  \<^verbatim>\<open>process_event\<close> fires a transition \<open>t\<close> of \<open>vs\<close> that has the greatest priority
  and is the earliest of that priority: every valid transition registered before it
  has a smaller priority, none registered after it has a greater one. \<open>vs\<close> keeps the
  registration order of the table.
\<close>

theorem process_event_selects_first_of_highest_priority:
  assumes "started (machine s)" and "\<not> stopped (machine s)"
    and "valid_transitions event (transitions (machine s)) s = (Inr vs, s1)"
    and "vs \<noteq> []"
  shows "\<exists>pre t post. vs = pre @ t # post \<and>
           (\<forall>u\<in>set pre. get_priority u < get_priority t) \<and>
           (\<forall>u\<in>set post. get_priority u \<le> get_priority t) \<and>
           subseq vs (transitions (machine s)) \<and>
           chosen_transition vs = Inr t \<and>
           process_event event s = except_Exception (fire t event s1)"
proof -
  from first_item_sorted_reverse[OF assms(4), of get_priority]
  obtain pre t post where dec: "vs = pre @ t # post"
    and lo: "\<forall>u\<in>set pre. get_priority u < get_priority t"
    and hi: "\<forall>u\<in>set post. get_priority u \<le> get_priority t"
    and ch: "(chosen_transition vs :: ('a, 'b) exc + ('a, 'b, 'c) Transition) = Inr t"
    unfolding chosen_transition_def by blast
  have "process_event event s = except_Exception (fire t event s1)"
    using assms(1,2) try_block_fires[OF assms(3) ch] by (simp add: process_event_def)
  moreover have "subseq vs (transitions (machine s))"
    using valid_transitions_subseq[OF assms(3)] by simp
  ultimately show ?thesis using dec lo hi ch by blast
qed

theorem process_event_selects_first_of_highest_priority_witness:
  "started (machine (initially (machine_A three_from_A))) \<and>
   \<not> stopped (machine (initially (machine_A three_from_A))) \<and>
   chosen_transition three_from_A
   = (Inr (passing ''A'' ''C'' 5) :: (string, unit) exc + (string, unit, string list) Transition) \<and>
   current_state (machine (snd (process_event ''go'' (initially (machine_A three_from_A))))) = ''C'' \<and>
   world (snd (process_event ''go'' (initially (machine_A three_from_A))))
   = [''guards AB'', ''guards AC'', ''guards AD'', ''hooks.on_exit A'', ''A.on_exit'',
      ''actions AC'', ''context.set C'', ''C.on_enter'', ''hooks.on_enter C''] \<and>
   (\<exists>pre t post. three_from_A = pre @ t # post \<and>
      (\<forall>u\<in>set pre. get_priority u < get_priority t) \<and>
      (\<forall>u\<in>set post. get_priority u \<le> get_priority t) \<and>
      subseq three_from_A (transitions (machine (initially (machine_A three_from_A)))) \<and>
      chosen_transition three_from_A
      = (Inr t :: (string, unit) exc + (string, unit, string list) Transition) \<and>
      process_event ''go'' (initially (machine_A three_from_A))
      = except_Exception (fire t ''go''
          \<lparr>machine = machine_A three_from_A,
           world = [''guards AB'', ''guards AC'', ''guards AD''],
           trace = [EvaluateGuards ''A'' ''B'' 1, EvaluateGuards ''A'' ''C'' 5,
                    EvaluateGuards ''A'' ''D'' 5]\<rparr>))"
proof -
  let ?s = "initially (machine_A three_from_A)"
  let ?s1 = "\<lparr>machine = machine_A three_from_A,
              world = [''guards AB'', ''guards AC'', ''guards AD''],
              trace = [EvaluateGuards ''A'' ''B'' 1, EvaluateGuards ''A'' ''C'' 5,
                       EvaluateGuards ''A'' ''D'' 5] :: (string, unit) call list\<rparr>"
  have h1: "started (machine ?s)" by (simp add: example_defs)
  have h2: "\<not> stopped (machine ?s)" by (simp add: example_defs)
  have h3: "valid_transitions ''go'' (transitions (machine ?s)) ?s = (Inr three_from_A, ?s1)"
    by (simp add: example_defs)
  have h4: "three_from_A \<noteq> []" by (simp add: three_from_A_def)
  have c: "chosen_transition three_from_A
           = (Inr (passing ''A'' ''C'' 5) :: (string, unit) exc + (string, unit, string list) Transition)"
    by (simp add: chosen_transition_def sorted_reverse_def first_item_def example_defs)
  have d: "current_state (machine (snd (process_event ''go'' ?s))) = ''C''"
    by (simp add: machine_defs example_defs)
  have w: "world (snd (process_event ''go'' ?s))
           = [''guards AB'', ''guards AC'', ''guards AD'', ''hooks.on_exit A'', ''A.on_exit'',
              ''actions AC'', ''context.set C'', ''C.on_enter'', ''hooks.on_enter C'']"
    by (simp add: machine_defs example_defs)
  from process_event_selects_first_of_highest_priority[OF h1 h2 h3 h4] h1 h2 c d w
  show ?thesis by blast
qed

text \<open>
  C2. When the on-exit hook, the exit behaviour of the current state or the actions of
  the chosen transition raise, the current state after \<^verbatim>\<open>process_event\<close> is the
  current state before it, whether the exception ends in the error hooks or
  propagates.
\<close>

theorem process_event_failed_exit_keeps_state:
  assumes "started (machine s)" and "\<not> stopped (machine s)"
    and "valid_transitions event (transitions (machine s)) s = (Inr vs, s1)"
    and "chosen_transition vs = Inr t"
    and "exit_and_act t event s1 = (Inl e, s2)"
  shows "current_state (machine (snd (process_event event s))) = current_state (machine s)"
proof -
  have f: "fire t event s1 = (Inl e, s2)"
    using assms(5) by (simp add: fire_def and_then_def)
  have "machine s2 = machine s1" by (rule exit_and_act_machine[OF assms(5)])
  also have "machine s1 = machine s" by (rule valid_transitions_machine[OF assms(3)])
  finally have m2: "machine s2 = machine s" .
  have p: "process_event event s = except_Exception (Inl e, s2)"
    using assms(1,2) try_block_fires[OF assms(3,4)] f by (simp add: process_event_def)
  obtain r' s' where ex: "except_Exception (Inl e :: ('a, 'b) exc + unit, s2) = (r', s')"
    by (cases "except_Exception (Inl e :: ('a, 'b) exc + unit, s2)")
  from except_Exception_machine[OF ex] m2 p ex show ?thesis by simp
qed

theorem process_event_failed_exit_keeps_state_witness:
  "exit_and_act (passing ''A'' ''C'' 5) ''go''
     \<lparr>machine = failing_exit_machine,
      world = [''guards AB'', ''guards AC'', ''guards AD''],
      trace = [EvaluateGuards ''A'' ''B'' 1, EvaluateGuards ''A'' ''C'' 5,
               EvaluateGuards ''A'' ''D'' 5]\<rparr>
   = (Inl (Exception ''exit failed''),
      \<lparr>machine = failing_exit_machine,
       world = [''guards AB'', ''guards AC'', ''guards AD'', ''hooks.on_exit A'', ''A.on_exit''],
       trace = [EvaluateGuards ''A'' ''B'' 1, EvaluateGuards ''A'' ''C'' 5,
                EvaluateGuards ''A'' ''D'' 5, HookOnExit ''A'', StateOnExit ''A'']\<rparr>) \<and>
   current_state (machine (snd (process_event ''go'' (initially failing_exit_machine))))
   = current_state (machine (initially failing_exit_machine)) \<and>
   current_state (machine (initially failing_exit_machine)) = ''A''"
proof -
  let ?s = "initially failing_exit_machine"
  let ?s1 = "\<lparr>machine = failing_exit_machine,
              world = [''guards AB'', ''guards AC'', ''guards AD''],
              trace = [EvaluateGuards ''A'' ''B'' 1, EvaluateGuards ''A'' ''C'' 5,
                       EvaluateGuards ''A'' ''D'' 5] :: (string, unit) call list\<rparr>"
  let ?s2 = "\<lparr>machine = failing_exit_machine,
              world = [''guards AB'', ''guards AC'', ''guards AD'', ''hooks.on_exit A'',
                       ''A.on_exit''],
              trace = [EvaluateGuards ''A'' ''B'' 1, EvaluateGuards ''A'' ''C'' 5,
                       EvaluateGuards ''A'' ''D'' 5, HookOnExit ''A'', StateOnExit ''A'']
                      :: (string, unit) call list\<rparr>"
  have h1: "started (machine ?s)" by (simp add: failing_exit_machine_def example_defs)
  have h2: "\<not> stopped (machine ?s)" by (simp add: failing_exit_machine_def example_defs)
  have h3: "valid_transitions ''go'' (transitions (machine ?s)) ?s = (Inr three_from_A, ?s1)"
    by (simp add: failing_exit_machine_def example_defs)
  have h4: "chosen_transition three_from_A
            = (Inr (passing ''A'' ''C'' 5) :: (string, unit) exc + (string, unit, string list) Transition)"
    by (simp add: chosen_transition_def sorted_reverse_def first_item_def example_defs)
  have h5: "exit_and_act (passing ''A'' ''C'' 5) ''go'' ?s1 = (Inl (Exception ''exit failed''), ?s2)"
    by (simp add: machine_defs failing_exit_machine_def example_defs)
  have a: "current_state (machine ?s) = ''A''"
    by (simp add: failing_exit_machine_def example_defs)
  from process_event_failed_exit_keeps_state[OF h1 h2 h3 h4 h5] h5 a
  show ?thesis by simp
qed




text \<open>
  C4. When the chosen transition fires without an exception, \<^verbatim>\<open>process_event\<close>
  returns, and between the guard evaluations and the return exactly these calls are
  made, each on the outside world that the one before it left: the on-exit hooks for
  the source state, the exit behaviour of the source state, the actions of the
  transition on the event, the context's assignment of the target to the cursor, the
  enter behaviour of the target state, the on-enter hooks for the target state. The
  source of the transition is the state the machine was in; afterwards the machine
  differs only in its current state, which is the target.
\<close>

theorem process_event_fires_in_order:
  assumes "started (machine s)" and "\<not> stopped (machine s)"
    and "valid_transitions event (transitions (machine s)) s = (Inr vs, s1)"
    and "chosen_transition vs = Inr t"
    and "fire t event s1 = (Inr u, s2)"
  shows "process_event event s = (Inr (), s2) \<and>
         source t = current_state (machine s) \<and>
         (\<exists>w1 w2 w3 w4 w5.
            execute_on_exit (hooks (machine s)) (source t) (world s1) = (Inr (), w1) \<and>
            state_on_exit (machine s) (source t) w1 = (Inr (), w2) \<and>
            execute_actions t event w2 = (Inr (), w3) \<and>
            context_set_current_state (machine s) (target t) w3 = (Inr (), w4) \<and>
            state_on_enter (machine s) (target t) w4 = (Inr (), w5) \<and>
            execute_on_enter (hooks (machine s)) (target t) w5 = (Inr (), world s2)) \<and>
         trace s2 = trace s1 @
           [HookOnExit (source t), StateOnExit (source t),
            ExecuteActions (source t) (target t) (get_priority t),
            SetCurrentState (target t), StateOnEnter (target t), HookOnEnter (target t)] \<and>
         machine s2 = (machine s)\<lparr>current_state := target t\<rparr> \<and>
         current_state (machine s2) = target t"
proof -
  have p: "process_event event s = (Inr (), s2)"
    using assms(1,2) try_block_fires[OF assms(3,4)] assms(5)
    by (simp add: process_event_def except_Exception_def)
  have m: "machine s1 = machine s" by (rule valid_transitions_machine[OF assms(3)])
  have src: "source t = current_state (machine s)"
    using valid_transitions_subseq[OF assms(3)] chosen_transition_member[OF assms(4)] by blast
  from fire_completes[OF assms(5)] m src
  have tr: "trace s2 = trace s1 @
           [HookOnExit (source t), StateOnExit (source t),
            ExecuteActions (source t) (target t) (get_priority t),
            SetCurrentState (target t), StateOnEnter (target t), HookOnEnter (target t)]"
    and ma: "machine s2 = (machine s)\<lparr>current_state := target t\<rparr>"
    and ex: "\<exists>w1 w2 w3 w4 w5.
            execute_on_exit (hooks (machine s)) (source t) (world s1) = (Inr (), w1) \<and>
            state_on_exit (machine s) (source t) w1 = (Inr (), w2) \<and>
            execute_actions t event w2 = (Inr (), w3) \<and>
            context_set_current_state (machine s) (target t) w3 = (Inr (), w4) \<and>
            state_on_enter (machine s) (target t) w4 = (Inr (), w5) \<and>
            execute_on_enter (hooks (machine s)) (target t) w5 = (Inr (), world s2)"
    by simp_all
  from ma have "current_state (machine s2) = target t" by simp
  with p src tr ma ex show ?thesis by blast
qed

theorem process_event_fires_in_order_witness:
  "process_event ''go'' (initially (machine_A [passing ''A'' ''B'' 0]))
   = (Inr (),
      \<lparr>machine = (machine_A [passing ''A'' ''B'' 0])\<lparr>current_state := ''B''\<rparr>,
       world = [''guards AB'', ''hooks.on_exit A'', ''A.on_exit'', ''actions AB'',
                ''context.set B'', ''B.on_enter'', ''hooks.on_enter B''],
       trace = [EvaluateGuards ''A'' ''B'' 0, HookOnExit ''A'', StateOnExit ''A'',
                ExecuteActions ''A'' ''B'' 0, SetCurrentState ''B'', StateOnEnter ''B'',
                HookOnEnter ''B'']\<rparr>) \<and>
   source (passing ''A'' ''B'' 0)
   = current_state (machine (initially (machine_A [passing ''A'' ''B'' 0]))) \<and>
   (\<exists>w1 w2 w3 w4 w5.
      execute_on_exit (hooks (machine_A [passing ''A'' ''B'' 0])) ''A'' [''guards AB'']
      = (Inr (), w1) \<and>
      state_on_exit (machine_A [passing ''A'' ''B'' 0]) ''A'' w1 = (Inr (), w2) \<and>
      execute_actions (passing ''A'' ''B'' 0) ''go'' w2 = (Inr (), w3) \<and>
      context_set_current_state (machine_A [passing ''A'' ''B'' 0]) ''B'' w3 = (Inr (), w4) \<and>
      state_on_enter (machine_A [passing ''A'' ''B'' 0]) ''B'' w4 = (Inr (), w5) \<and>
      execute_on_enter (hooks (machine_A [passing ''A'' ''B'' 0])) ''B'' w5
      = (Inr (), [''guards AB'', ''hooks.on_exit A'', ''A.on_exit'', ''actions AB'',
                  ''context.set B'', ''B.on_enter'', ''hooks.on_enter B'']))"
proof -
  let ?m = "machine_A [passing ''A'' ''B'' 0]"
  let ?s = "initially ?m"
  let ?s1 = "\<lparr>machine = ?m, world = [''guards AB''],
              trace = [EvaluateGuards ''A'' ''B'' 0] :: (string, unit) call list\<rparr>"
  let ?s2 = "\<lparr>machine = ?m\<lparr>current_state := ''B''\<rparr>,
              world = [''guards AB'', ''hooks.on_exit A'', ''A.on_exit'', ''actions AB'',
                       ''context.set B'', ''B.on_enter'', ''hooks.on_enter B''],
              trace = [EvaluateGuards ''A'' ''B'' 0, HookOnExit ''A'', StateOnExit ''A'',
                       ExecuteActions ''A'' ''B'' 0, SetCurrentState ''B'', StateOnEnter ''B'',
                       HookOnEnter ''B''] :: (string, unit) call list\<rparr>"
  have h1: "started (machine ?s)" by (simp add: example_defs)
  have h2: "\<not> stopped (machine ?s)" by (simp add: example_defs)
  have h3: "valid_transitions ''go'' (transitions (machine ?s)) ?s = (Inr [passing ''A'' ''B'' 0], ?s1)"
    by (simp add: example_defs)
  have h4: "chosen_transition [passing ''A'' ''B'' 0]
            = (Inr (passing ''A'' ''B'' 0) :: (string, unit) exc + (string, unit, string list) Transition)"
    by (simp add: chosen_transition_def sorted_reverse_def first_item_def)
  have h5: "fire (passing ''A'' ''B'' 0) ''go'' ?s1 = (Inr (), ?s2)"
    by (simp add: machine_defs example_defs)
  have m: "machine ?s = ?m" and w1: "world ?s1 = [''guards AB'']"
    and w2: "world ?s2 = [''guards AB'', ''hooks.on_exit A'', ''A.on_exit'', ''actions AB'',
                       ''context.set B'', ''B.on_enter'', ''hooks.on_enter B'']"
    and st: "source (passing ''A'' ''B'' 0) = ''A''" "target (passing ''A'' ''B'' 0) = ''B''"
    by (simp_all add: initially_def passing_def)
  from process_event_fires_in_order[OF h1 h2 h3 h4 h5]
  show ?thesis unfolding m w1 w2 st by blast
qed

text \<open>
  C9. On a machine that has not been started or has been stopped,
  \<^verbatim>\<open>process_event\<close> returns and leaves the whole configuration as it was: the
  current state, the outside world and the trace, so that no guard was evaluated and no
  hook was called.
\<close>

theorem process_event_not_running_is_noop:
  "\<not> started (machine s) \<or> stopped (machine s) \<Longrightarrow> process_event event s = (Inr (), s)"
  by (simp add: process_event_def)

theorem process_event_not_running_is_noop_witness:
  "\<not> started (machine (initially ((machine_A three_from_A)\<lparr>started := False\<rparr>))) \<and>
   process_event ''go'' (initially ((machine_A three_from_A)\<lparr>started := False\<rparr>))
   = (Inr (), initially ((machine_A three_from_A)\<lparr>started := False\<rparr>)) \<and>
   stopped (machine (initially ((machine_A three_from_A)\<lparr>stopped := True\<rparr>))) \<and>
   process_event ''go'' (initially ((machine_A three_from_A)\<lparr>stopped := True\<rparr>))
   = (Inr (), initially ((machine_A three_from_A)\<lparr>stopped := True\<rparr>))"
proof -
  let ?a = "initially ((machine_A three_from_A)\<lparr>started := False\<rparr>)"
  let ?b = "initially ((machine_A three_from_A)\<lparr>stopped := True\<rparr>)"
  have ha: "\<not> started (machine ?a) \<or> stopped (machine ?a)" by (simp add: initially_def)
  have hb: "\<not> started (machine ?b) \<or> stopped (machine ?b)" by (simp add: initially_def)
  have na: "\<not> started (machine ?a)" by (simp add: initially_def)
  have sb: "stopped (machine ?b)" by (simp add: initially_def)
  from process_event_not_running_is_noop[OF ha, of "''go''"]
       process_event_not_running_is_noop[OF hb, of "''go''"] na sb
  show ?thesis by simp
qed

section \<open>Claims about the condition guard\<close>




section \<open>Claims about the timer\<close>

text \<open>
  C6. On a timer in state \<^verbatim>\<open>ERROR\<close>, \<^verbatim>\<open>schedule_timeout\<close> with a non-negative
  duration succeeds: the timer is \<^verbatim>\<open>RUNNING\<close> with the duration, the start time and
  the event recorded.
\<close>

theorem schedule_timeout_from_ERROR:
  assumes "timer_state t = ERROR" and "0 \<le> duration"
  shows "\<exists>t'. schedule_timeout now duration event t = Inr t' \<and>
              timer_state t' = RUNNING \<and> timer_duration t' = Some duration \<and>
              timer_start_time t' = Some now \<and> timer_event t' = Some event"
  using assms by (simp add: schedule_timeout_def)

theorem schedule_timeout_from_ERROR_witness:
  "timer_state error_timer_after_expiry = ERROR \<and> (0::real) \<le> 1 / 2 \<and>
   (\<exists>t'. schedule_timeout 5 (1 / 2) ''again'' error_timer_after_expiry = Inr t' \<and>
         timer_state t' = RUNNING \<and> timer_duration t' = Some (1 / 2) \<and>
         timer_start_time t' = Some 5 \<and> timer_event t' = Some ''again'')"
proof -
  have h1: "timer_state error_timer_after_expiry = ERROR"
    by (simp add: error_timer_after_expiry_def error_timer_def schedule_timeout_def
        deadline_expiry_def)
  have h2: "(0::real) \<le> 1 / 2" by simp
  from schedule_timeout_from_ERROR[OF h1 h2, of 5 "''again''"] h1 h2
  show ?thesis by blast
qed

end
